theory Spec2Isabelle
  imports Complex_Main "HOL-Library.Sublist" "HOL-Library.AList"
begin

section \<open>Exceptions and strings\<close>

text \<open>
  The program is \<^verbatim>\<open>src/main.py\<close>. Python strings are modelled as \<^typ>\<open>string\<close>
  holding the UTF-8 bytes of the text; the tests the code makes on strings
  (\<^verbatim>\<open>startswith('@')\<close>, \<^verbatim>\<open>startswith('http')\<close>, \<^verbatim>\<open>link[1:]\<close> after an \<^verbatim>\<open>'@'\<close>) read ASCII
  characters only, so they agree on the bytes and on the code points.

  Only subclasses of \<^verbatim>\<open>Exception\<close> are modelled (what \<^verbatim>\<open>except Exception\<close> catches):
  \<open>IndexError\<close> is what \<^verbatim>\<open>self.requests[0]\<close> raises on an empty list, and \<open>Raised m\<close> is
  any other exception, \<open>m\<close> being its \<^verbatim>\<open>str(e)\<close>.
\<close>

datatype exn = IndexError | Raised string

fun str :: "exn \<Rightarrow> string" where
  "str IndexError = ''list index out of range''"
| "str (Raised m) = m"

text \<open>\<^verbatim>\<open>s.startswith(p)\<close>: the first \<open>len(p)\<close> characters of \<open>s\<close> are \<open>p\<close>.\<close>

definition startswith :: "string \<Rightarrow> string \<Rightarrow> bool" where
  "startswith s p = (take (length p) s = p)"

section \<open>RateLimiter\<close>

text \<open>
  \<^verbatim>\<open>
  class RateLimiter:
      def __init__(self, max_requests, time_window):
          self.max_requests = max_requests
          self.time_window = time_window
          self.requests = []
  \<close>
  Times are seconds on the clock \<^verbatim>\<open>time.time()\<close> reads, as real numbers.
\<close>

record RateLimiter =
  max_requests :: int
  time_window :: real
  requests :: "real list"

definition RateLimiter_init :: "int \<Rightarrow> real \<Rightarrow> RateLimiter" where
  "RateLimiter_init m tw = \<lparr>max_requests = m, time_window = tw, requests = []\<rparr>"

text \<open>
  The purge loop of \<^verbatim>\<open>acquire\<close>:
  \<^verbatim>\<open>
  while self.requests and self.requests[0] <= current_time - self.time_window:
      self.requests.pop(0)
  \<close>
  with \<open>bound = current_time - self.time_window\<close>.
\<close>

fun purge :: "real \<Rightarrow> real list \<Rightarrow> real list" where
  "purge bound [] = []"
| "purge bound (r # rs) = (if r \<le> bound then purge bound rs else r # rs)"

text \<open>
  \<^verbatim>\<open>time.sleep(d)\<close> on a clock that reads \<open>now\<close>: the caller resumes when the clock reads
  \<open>now + d\<close>. Sleeping is the only thing that makes time pass inside \<^verbatim>\<open>acquire\<close>: the
  statements of the method themselves take no time, so the next \<^verbatim>\<open>time.time()\<close> after a
  sleep reads \<open>now + d\<close>.
\<close>

definition sleep :: "real \<Rightarrow> real \<Rightarrow> real" where
  "sleep d now = now + d"

text \<open>
  \<^verbatim>\<open>
  def acquire(self):
      current_time = time.time()
      while self.requests and self.requests[0] <= current_time - self.time_window:
          self.requests.pop(0)
      if len(self.requests) >= self.max_requests:
          sleep_time = self.requests[0] + self.time_window - current_time
          if sleep_time > 0:
              time.sleep(sleep_time)
              return self.acquire()
      self.requests.append(current_time)
      return True
  \<close>
  The model takes the limiter and the clock and returns the outcome (the value \<open>True\<close>, or
  the exception raised), the limiter as the call left it and the clock at the return.
  \<^verbatim>\<open>self.requests[0]\<close> on an empty list raises \<open>IndexError\<close>.
\<close>

function acquire :: "RateLimiter \<Rightarrow> real \<Rightarrow> (exn + bool) \<times> RateLimiter \<times> real" where
  "acquire rl now =
     (let current_time = now;
          rl1 = rl\<lparr>requests := purge (current_time - time_window rl) (requests rl)\<rparr>
      in if max_requests rl1 \<le> int (length (requests rl1)) then
           (case requests rl1 of
              [] \<Rightarrow> (Inl IndexError, rl1, now)
            | r0 # _ \<Rightarrow>
                (let sleep_time = r0 + time_window rl1 - current_time
                 in if 0 < sleep_time then acquire rl1 (sleep sleep_time now)
                    else (Inr True, rl1\<lparr>requests := requests rl1 @ [current_time]\<rparr>, now)))
         else (Inr True, rl1\<lparr>requests := requests rl1 @ [current_time]\<rparr>, now))"
  by pat_completeness auto

lemma length_purge_le: "length (purge b rs) \<le> length rs"
  by (induction rs) auto

termination acquire
proof (relation "measure (\<lambda>(rl, now). length (purge (now - time_window rl) (requests rl)))")
  show "wf (measure (\<lambda>(rl, now). length (purge (now - time_window rl) (requests rl))))"
    by simp
next
  fix rl :: RateLimiter and now x :: real and xa :: RateLimiter and x21 :: real
    and x22 :: "real list" and xb :: real
  assume cur: "x = now"
    and rl1: "xa = rl\<lparr>requests := purge (x - time_window rl) (requests rl)\<rparr>"
    and nonempty: "requests xa = x21 # x22"
    and st: "xb = x21 + time_window xa - x"
  have "sleep xb now - time_window xa = x21"
    using cur st by (simp add: sleep_def)
  then have "purge (sleep xb now - time_window xa) (requests xa) = purge x21 x22"
    using nonempty by simp
  moreover have "length (purge x21 x22) \<le> length x22"
    by (rule length_purge_le)
  moreover have "purge (now - time_window rl) (requests rl) = x21 # x22"
    using cur rl1 nonempty by simp
  ultimately show "((xa, sleep xb now), (rl, now))
      \<in> measure (\<lambda>(rl, now). length (purge (now - time_window rl) (requests rl)))"
    by simp
qed

declare acquire.simps [simp del]

section \<open>Link normalization\<close>

text \<open>
  The first statements of the \<^verbatim>\<open>try\<close> block of \<^verbatim>\<open>LinkChecker.check_link\<close>:
  \<^verbatim>\<open>
  if link.startswith('@'):
      link = f'https://t.me/{link[1:]}'
  elif not link.startswith('http'):
      link = f'https://t.me/{link}'
  \<close>
\<close>

definition normalize_link :: "string \<Rightarrow> string" where
  "normalize_link link =
     (if startswith link ''@'' then ''https://t.me/'' @ drop 1 link
      else if \<not> startswith link ''http'' then ''https://t.me/'' @ link
      else link)"

section \<open>Whitespace stripping\<close>

text \<open>
  \<^verbatim>\<open>str.strip()\<close> removes from both ends the characters for which \<^verbatim>\<open>str.isspace()\<close> holds: the
  code points U+0009 to U+000D, U+001C to U+0020, U+0085, U+00A0, U+1680, U+2000 to U+200A,
  U+2028, U+2029, U+202F, U+205F and U+3000. \<open>whitespace\<close> lists their UTF-8 encodings.
\<close>

definition whitespace :: "string list" where
  "whitespace =
     [[CHR 0x09], [CHR 0x0A], [CHR 0x0B], [CHR 0x0C], [CHR 0x0D],
      [CHR 0x1C], [CHR 0x1D], [CHR 0x1E], [CHR 0x1F], [CHR 0x20],
      [CHR 0xC2, CHR 0x85], [CHR 0xC2, CHR 0xA0], [CHR 0xE1, CHR 0x9A, CHR 0x80],
      [CHR 0xE2, CHR 0x80, CHR 0x80], [CHR 0xE2, CHR 0x80, CHR 0x81],
      [CHR 0xE2, CHR 0x80, CHR 0x82], [CHR 0xE2, CHR 0x80, CHR 0x83],
      [CHR 0xE2, CHR 0x80, CHR 0x84], [CHR 0xE2, CHR 0x80, CHR 0x85],
      [CHR 0xE2, CHR 0x80, CHR 0x86], [CHR 0xE2, CHR 0x80, CHR 0x87],
      [CHR 0xE2, CHR 0x80, CHR 0x88], [CHR 0xE2, CHR 0x80, CHR 0x89],
      [CHR 0xE2, CHR 0x80, CHR 0x8A], [CHR 0xE2, CHR 0x80, CHR 0xA8],
      [CHR 0xE2, CHR 0x80, CHR 0xA9], [CHR 0xE2, CHR 0x80, CHR 0xAF],
      [CHR 0xE2, CHR 0x81, CHR 0x9F], [CHR 0xE3, CHR 0x80, CHR 0x80]]"

text \<open>Remove from the front of \<open>s\<close> every leading character whose encoding is in \<open>ws\<close>.\<close>

function strip_left :: "string list \<Rightarrow> string \<Rightarrow> string" where
  "strip_left ws s =
     (case find (\<lambda>w. w \<noteq> [] \<and> prefix w s) ws of
        None \<Rightarrow> s
      | Some w \<Rightarrow> strip_left ws (drop (length w) s))"
  by pat_completeness auto
termination
  by (relation "measure (\<lambda>(ws, s). length s)") (auto simp: find_Some_iff prefix_def)

declare strip_left.simps [simp del]

definition strip :: "string \<Rightarrow> string" where
  "strip s = rev (strip_left (map rev whitespace) (rev (strip_left whitespace s)))"

section \<open>The result of a check\<close>

text \<open>
  \<^verbatim>\<open>check_link\<close> returns a dictionary with six keys, all written in Chinese in the source.
  The record names them in English, in the source's order: the link (U+94FE U+63A5), the name
  (U+540D U+79F0), the member information (U+6210 U+5458 U+4FE1 U+606F), the status
  (U+72B6 U+6001), the check time (U+68C0 U+67E5 U+65F6 U+95F4) and the redirect link
  (U+91CD U+5B9A U+5411 U+94FE U+63A5). The check time is
  \<^verbatim>\<open>datetime.now().strftime('%Y-%m-%d %H:%M:%S')\<close>; the record keeps the clock reading that
  the source formats.
\<close>

record result =
  r_link :: string
  r_name :: string
  r_members :: string
  r_status :: string
  r_checked :: real
  r_redirect :: string

text \<open>
  The string literals of the result, as UTF-8: \<open>UNKNOWN\<close> is U+672A U+77E5 ("unknown"),
  \<open>VALID\<close> is U+6709 U+6548 ("valid"), \<open>INVALID\<close> is U+65E0 U+6548 ("invalid"),
  \<open>ERROR_NAME\<close> is U+9519 U+8BEF ("error") and \<open>ERROR_PREFIX\<close> is U+9519 U+8BEF U+FF1A
  ("error" and a full-width colon), which the source puts before \<^verbatim>\<open>str(e)\<close>.
\<close>

definition UNKNOWN :: string where
  "UNKNOWN = [CHR 0xE6, CHR 0x9C, CHR 0xAA, CHR 0xE7, CHR 0x9F, CHR 0xA5]"

definition VALID :: string where
  "VALID = [CHR 0xE6, CHR 0x9C, CHR 0x89, CHR 0xE6, CHR 0x95, CHR 0x88]"

definition INVALID :: string where
  "INVALID = [CHR 0xE6, CHR 0x97, CHR 0xA0, CHR 0xE6, CHR 0x95, CHR 0x88]"

definition ERROR_NAME :: string where
  "ERROR_NAME = [CHR 0xE9, CHR 0x94, CHR 0x99, CHR 0xE8, CHR 0xAF, CHR 0xAF]"

definition ERROR_PREFIX :: string where
  "ERROR_PREFIX = ERROR_NAME @ [CHR 0xEF, CHR 0xBC, CHR 0x9A]"

text \<open>
  A status is terminal when it is one of the three forms a finished check writes. The source
  has no status for a check that is still pending.
\<close>

definition terminal :: "string \<Rightarrow> bool" where
  "terminal s \<longleftrightarrow> s = VALID \<or> s = INVALID \<or> prefix ERROR_PREFIX s"

section \<open>The network and the page parser\<close>

text \<open>
  \<^verbatim>\<open>requests.get\<close> and \<^verbatim>\<open>BeautifulSoup\<close> are libraries outside the repository, so the model
  takes them as parameters. A response has the two attributes the source reads,
  \<^verbatim>\<open>response.url\<close> and \<^verbatim>\<open>response.text\<close>. A page is what the two lookups
  \<^verbatim>\<open>soup.find('div', {'class': 'tgme_page_title'})\<close> and
  \<^verbatim>\<open>soup.find('div', {'class': 'tgme_page_extra'})\<close> give: \<open>None\<close> when there is no such
  element, and otherwise the element, of which the source reads the \<^verbatim>\<open>.text\<close> only
  (a \<^verbatim>\<open>Tag\<close> is always true in a condition).
\<close>

record response =
  resp_url :: string
  resp_text :: string

record page =
  page_title :: "string option"
  page_extra :: "string option"

text \<open>
  The environment of a run:
  \<^item> \<open>http_get n link\<close> is what the \<open>n\<close>-th call of
    \<^verbatim>\<open>requests.get(link, headers=self.headers, timeout=10)\<close> of the run does: the response or
    the exception raised (a timeout is one of them), and the seconds the call took;
  \<^item> \<open>html_parser text\<close> is \<^verbatim>\<open>BeautifulSoup(text, 'html.parser')\<close> followed by the two
    lookups, or the exception one of them raises;
  \<^item> \<open>stop_before_read\<close> says when the other thread calls \<^verbatim>\<open>stop()\<close>: \<open>Some k\<close> when the
    call lands just before the run's \<open>k\<close>-th read of \<^verbatim>\<open>self.is_running\<close> (counted from 0),
    \<open>None\<close> when nobody calls it. The run sees the flag only when it reads it, so this
    covers a call of \<^verbatim>\<open>stop()\<close> at any moment of the run.
\<close>

record env =
  http_get :: "nat \<Rightarrow> string \<Rightarrow> (exn + response) \<times> real"
  html_parser :: "string \<Rightarrow> exn + page"
  stop_before_read :: "nat option"

section \<open>Signals, thread pool and the state outside the checker\<close>

text \<open>
  The trace records what the run does that can be seen from outside, in order: the start and
  the return of each \<^verbatim>\<open>requests.get\<close>, and the three Qt signals
  \<^verbatim>\<open>progress_signal(str, dict)\<close>, \<^verbatim>\<open>finished_signal()\<close> and \<^verbatim>\<open>error_signal(str)\<close>.
\<close>

datatype event =
  Get_begin string
| Get_end string
| Progress_signal string result
| Finished_signal
| Error_signal string

text \<open>
  \<^verbatim>\<open>ThreadPoolExecutor(max_workers=5)\<close>: its size, the tasks given to it with
  \<^verbatim>\<open>submit\<close> or \<^verbatim>\<open>map\<close> (the links they would check), and whether it has been shut down.
\<close>

record ThreadPoolExecutor =
  max_workers :: nat
  submitted :: "string list"
  is_shutdown :: bool

definition ThreadPoolExecutor_init :: "nat \<Rightarrow> ThreadPoolExecutor" where
  "ThreadPoolExecutor_init n = \<lparr>max_workers = n, submitted = [], is_shutdown = False\<rparr>"

definition shutdown :: "ThreadPoolExecutor \<Rightarrow> ThreadPoolExecutor" where
  "shutdown p = p\<lparr>is_shutdown := True\<rparr>"

record world =
  clock :: real
  reads :: nat
  fetches :: nat
  trace :: "event list"
  pool :: "ThreadPoolExecutor option"

definition world_init :: "real \<Rightarrow> world" where
  "world_init t0 = \<lparr>clock = t0, reads = 0, fetches = 0, trace = [], pool = None\<rparr>"

definition emit :: "event \<Rightarrow> world \<Rightarrow> world" where
  "emit e w = w\<lparr>trace := trace w @ [e]\<rparr>"

section \<open>LinkChecker\<close>

text \<open>
  \<^verbatim>\<open>
  def __init__(self, links):
      super().__init__()
      self.links = links
      self.headers = {'User-Agent': ...}
      self.is_running = True
      self.rate_limiter = RateLimiter(max_requests=20, time_window=60)
  \<close>
  The headers are a constant that only \<^verbatim>\<open>requests.get\<close> reads; they are part of \<open>http_get\<close>.
\<close>

record LinkChecker =
  links :: "string list"
  is_running :: bool
  rate_limiter :: RateLimiter

definition LinkChecker_init :: "string list \<Rightarrow> LinkChecker" where
  "LinkChecker_init ls =
     \<lparr>links = ls, is_running = True, rate_limiter = RateLimiter_init 20 60\<rparr>"

text \<open>
  \<^verbatim>\<open>
  def stop(self):
      self.is_running = False
  \<close>
\<close>

definition stop :: "LinkChecker \<Rightarrow> LinkChecker" where
  "stop c = c\<lparr>is_running := False\<rparr>"

text \<open>
  A read of \<^verbatim>\<open>self.is_running\<close> by the run. If the other thread's \<^verbatim>\<open>stop()\<close> lands just
  before this read, the flag is cleared first.
\<close>

definition read_is_running :: "env \<Rightarrow> LinkChecker \<Rightarrow> world \<Rightarrow> bool \<times> LinkChecker \<times> world" where
  "read_is_running en c w =
     (let c1 = (if stop_before_read en = Some (reads w) then stop c else c)
      in (is_running c1, c1, w\<lparr>reads := Suc (reads w)\<rparr>))"

text \<open>
  The \<^verbatim>\<open>except Exception as e\<close> handler of \<^verbatim>\<open>check_link\<close>: the dictionary it returns, for the
  link as the \<^verbatim>\<open>try\<close> block left it.
\<close>

definition error_result :: "string \<Rightarrow> exn \<Rightarrow> real \<Rightarrow> result" where
  "error_result link e t =
     \<lparr>r_link = link, r_name = ERROR_NAME, r_members = UNKNOWN,
      r_status = ERROR_PREFIX @ str e, r_checked = t, r_redirect = []\<rparr>"

text \<open>
  The dictionary of the \<^verbatim>\<open>try\<close> block (lines 79 to 102), from the response and the two
  lookups:
  \<^verbatim>\<open>
  result = {link, name: unknown, members: unknown, status: invalid, time: now, redirect: ''}
  if response.url != link: result[redirect] = response.url
  title = soup.find('div', {'class': 'tgme_page_title'})
  if title: result[name] = title.text.strip()
  subscribers = soup.find('div', {'class': 'tgme_page_extra'})
  if subscribers: result[members] = subscribers.text.strip()
  result[status] = valid if title else invalid
  \<close>
\<close>

definition page_result :: "string \<Rightarrow> response \<Rightarrow> page \<Rightarrow> real \<Rightarrow> result" where
  "page_result link resp pg t =
     \<lparr>r_link = link,
      r_name = (case page_title pg of None \<Rightarrow> UNKNOWN | Some title \<Rightarrow> strip title),
      r_members = (case page_extra pg of None \<Rightarrow> UNKNOWN | Some subscribers \<Rightarrow> strip subscribers),
      r_status = (if page_title pg \<noteq> None then VALID else INVALID),
      r_checked = t,
      r_redirect = (if resp_url resp \<noteq> link then resp_url resp else [])\<rparr>"

text \<open>
  \<^verbatim>\<open>requests.get(link, headers=self.headers, timeout=10)\<close>: the call starts, takes its time
  and returns or raises.
\<close>

definition get :: "env \<Rightarrow> world \<Rightarrow> string \<Rightarrow> (exn + response) \<times> world" where
  "get en w link =
     (case http_get en (fetches w) link of
        (got, took) \<Rightarrow>
          (got, w\<lparr>clock := clock w + took, fetches := Suc (fetches w),
                 trace := trace w @ [Get_begin link, Get_end link]\<rparr>))"

text \<open>
  What the \<^verbatim>\<open>try\<close> block makes of the outcome of the GET, with its handler: an exception of
  the GET or of the parser gives the handler's dictionary, a parsed page gives the page's.
\<close>

definition result_of :: "env \<Rightarrow> string \<Rightarrow> exn + response \<Rightarrow> real \<Rightarrow> result" where
  "result_of en link got t =
     (case got of
        Inl e \<Rightarrow> error_result link e t
      | Inr resp \<Rightarrow>
          (case html_parser en (resp_text resp) of
             Inl e \<Rightarrow> error_result link e t
           | Inr pg \<Rightarrow> page_result link resp pg t))"

text \<open>
  \<^verbatim>\<open>
  def check_link(self, link):
      if not self.is_running:
          return None
      self.rate_limiter.acquire()
      try:
          (normalize link; GET; parse; build and return the dictionary)
      except Exception as e:
          return {the error dictionary}
  \<close>
  \<^verbatim>\<open>acquire\<close> is called outside the \<^verbatim>\<open>try\<close>: an exception it raises leaves \<^verbatim>\<open>check_link\<close>.
\<close>

definition check_link ::
  "env \<Rightarrow> LinkChecker \<Rightarrow> world \<Rightarrow> string \<Rightarrow> (exn + result option) \<times> LinkChecker \<times> world" where
  "check_link en c w link =
     (case read_is_running en c w of
        (running, c1, w1) \<Rightarrow>
          if \<not> running then (Inr None, c1, w1)
          else
            (case acquire (rate_limiter c1) (clock w1) of
               (Inl e, rl, t) \<Rightarrow> (Inl e, c1\<lparr>rate_limiter := rl\<rparr>, w1\<lparr>clock := t\<rparr>)
             | (Inr _, rl, t) \<Rightarrow>
                 (case get en (w1\<lparr>clock := t\<rparr>) (normalize_link link) of
                    (got, w2) \<Rightarrow>
                      (Inr (Some (result_of en (normalize_link link) got (clock w2))),
                       c1\<lparr>rate_limiter := rl\<rparr>, w2))))"

text \<open>
  \<^verbatim>\<open>if result:\<close> on what \<^verbatim>\<open>check_link\<close> returned: \<open>None\<close> is false, a dictionary with six
  keys is true.
\<close>

fun truthy :: "result option \<Rightarrow> bool" where
  "truthy None = False"
| "truthy (Some r) = True"

text \<open>
  The loop of \<^verbatim>\<open>run\<close>:
  \<^verbatim>\<open>
  for link in self.links:
      if not self.is_running:
          break
      result = self.check_link(link.strip())
      if result:
          self.progress_signal.emit(link, result)
  \<close>
  The outcome is \<open>Inl e\<close> when the exception \<open>e\<close> leaves the loop.
\<close>

fun run_loop :: "env \<Rightarrow> string list \<Rightarrow> LinkChecker \<Rightarrow> world \<Rightarrow> (exn + unit) \<times> LinkChecker \<times> world" where
  "run_loop en [] c w = (Inr (), c, w)"
| "run_loop en (link # rest) c w =
     (case read_is_running en c w of
        (running, c1, w1) \<Rightarrow>
          if \<not> running then (Inr (), c1, w1)
          else
            (case check_link en c1 w1 (strip link) of
               (Inl e, c2, w2) \<Rightarrow> (Inl e, c2, w2)
             | (Inr res, c2, w2) \<Rightarrow>
                 run_loop en rest c2
                   (if truthy res then emit (Progress_signal link (the res)) w2 else w2)))"

text \<open>
  \<^verbatim>\<open>
  def run(self):
      try:
          with ThreadPoolExecutor(max_workers=5) as executor:
              (the loop)
          self.finished_signal.emit()
      except Exception as e:
          self.error_signal.emit(str(e))
  \<close>
  Leaving the \<^verbatim>\<open>with\<close> block shuts the executor down, also when an exception leaves it.
\<close>

definition run :: "env \<Rightarrow> LinkChecker \<Rightarrow> world \<Rightarrow> LinkChecker \<times> world" where
  "run en c w =
     (case run_loop en (links c) c (w\<lparr>pool := Some (ThreadPoolExecutor_init 5)\<rparr>) of
        (out, c1, w1) \<Rightarrow>
          (let w2 = w1\<lparr>pool := map_option shutdown (pool w1)\<rparr>
           in case out of
                Inr _ \<Rightarrow> (c1, emit Finished_signal w2)
              | Inl e \<Rightarrow> (c1, emit (Error_signal (str e)) w2)))"

section \<open>The result aggregator\<close>

text \<open>
  \<^verbatim>\<open>TelegramToolsManager.check_results\<close> is a dictionary from links to result dictionaries.
  A Python dictionary keeps its keys in the order of their first insertion, and assigning to
  a key that is there keeps its place: an association list under \<open>AList.update\<close>.
  \<^verbatim>\<open>
  def update_check_result(self, link, result):
      self.check_results[link] = result
      (append the formatted result to the text widget, set the progress bar)
  \<close>
  The widgets are not modelled.
\<close>

definition update_check_result ::
  "(string \<times> result) list \<Rightarrow> string \<Rightarrow> result \<Rightarrow> (string \<times> result) list" where
  "update_check_result check_results link res = AList.update link res check_results"

text \<open>
  \<^verbatim>\<open>start_check\<close> empties \<^verbatim>\<open>check_results\<close> and connects \<^verbatim>\<open>progress_signal\<close> to
  \<^verbatim>\<open>update_check_result\<close> before it starts the checker. The slots run in the order in
  which the signals were emitted, and only \<^verbatim>\<open>progress_signal\<close> is connected to a slot that
  writes \<^verbatim>\<open>check_results\<close>.
\<close>

fun deliver :: "(string \<times> result) list \<Rightarrow> event list \<Rightarrow> (string \<times> result) list" where
  "deliver check_results [] = check_results"
| "deliver check_results (Progress_signal link res # es) =
     deliver (update_check_result check_results link res) es"
| "deliver check_results (e # es) = deliver check_results es"

section \<open>Observations on a trace\<close>

text \<open>The progress signals of a trace, in order.\<close>

fun progress :: "event list \<Rightarrow> (string \<times> result) list" where
  "progress [] = []"
| "progress (Progress_signal link res # es) = (link, res) # progress es"
| "progress (e # es) = progress es"

text \<open>
  The largest number of GETs that are in flight at the same moment, for a trace that starts
  with \<open>n\<close> of them in flight.
\<close>

fun peak_in_flight :: "nat \<Rightarrow> event list \<Rightarrow> nat" where
  "peak_in_flight n [] = n"
| "peak_in_flight n (Get_begin link # es) = max n (peak_in_flight (Suc n) es)"
| "peak_in_flight n (Get_end link # es) = max n (peak_in_flight (n - 1) es)"
| "peak_in_flight n (e # es) = peak_in_flight n es"

text \<open>
  A trace is sequential when it is a row of complete checks, each a GET that starts and
  returns followed at once by the progress signal of its link, and then at most one final
  signal.
\<close>

fun sequential :: "event list \<Rightarrow> bool" where
  "sequential [] = True"
| "sequential [Finished_signal] = True"
| "sequential [Error_signal m] = True"
| "sequential (Get_begin a # Get_end b # Progress_signal link res # es) =
     (a = b \<and> r_link res = a \<and> sequential es)"
| "sequential es = False"

text \<open>
  How a run ended, read from the last signal and the flag: the source emits
  \<^verbatim>\<open>finished_signal\<close> both when the loop runs to its end and when it breaks after
  \<^verbatim>\<open>stop()\<close>, and the flag tells the two apart.
\<close>

datatype ending = Completed | Stopped | Failed string

definition ending_of :: "LinkChecker \<Rightarrow> world \<Rightarrow> ending option" where
  "ending_of c w =
     (if trace w = [] then None
      else case last (trace w) of
             Finished_signal \<Rightarrow> Some (if is_running c then Completed else Stopped)
           | Error_signal m \<Rightarrow> Some (Failed m)
           | _ \<Rightarrow> None)"

section \<open>Sequences of calls of the rate limiter\<close>




section \<open>A plain sequential loop\<close>

text \<open>
  The loop that the run is compared with: go through the links in their order, one at a
  time; for each, stop for good if the flag is cleared, check the link, and emit its result
  before going to the next link; emit the final signal after the last link. No thread pool
  takes part. It is written as a fold that carries where the loop stands (still looping,
  broken out, or left by an exception).
\<close>

datatype phase = Looping | Broken | Raising exn

fun visit :: "env \<Rightarrow> phase \<times> LinkChecker \<times> world \<Rightarrow> string \<Rightarrow> phase \<times> LinkChecker \<times> world" where
  "visit en (Looping, c, w) link =
     (case read_is_running en c w of
        (running, c1, w1) \<Rightarrow>
          if \<not> running then (Broken, c1, w1)
          else
            (case check_link en c1 w1 (strip link) of
               (Inl e, c2, w2) \<Rightarrow> (Raising e, c2, w2)
             | (Inr None, c2, w2) \<Rightarrow> (Looping, c2, w2)
             | (Inr (Some res), c2, w2) \<Rightarrow> (Looping, c2, emit (Progress_signal link res) w2)))"
| "visit en (p, c, w) link = (p, c, w)"

definition sequential_run :: "env \<Rightarrow> LinkChecker \<Rightarrow> world \<Rightarrow> LinkChecker \<times> world" where
  "sequential_run en c w =
     (case foldl (visit en) (Looping, c, w) (links c) of
        (Raising e, c1, w1) \<Rightarrow> (c1, emit (Error_signal (str e)) w1)
      | (p, c1, w1) \<Rightarrow> (c1, emit Finished_signal w1))"

fun raised :: "phase \<Rightarrow> exn + unit" where
  "raised (Raising e) = Inl e"
| "raised p = Inr ()"

text \<open>The events of a row of complete checks, from the links and their results.\<close>

fun checks :: "(string \<times> result) list \<Rightarrow> event list" where
  "checks [] = []"
| "checks ((link, res) # prs) =
     Get_begin (r_link res) # Get_end (r_link res) # Progress_signal link res # checks prs"

text \<open>
  The exception that the \<^verbatim>\<open>try\<close> block of \<^verbatim>\<open>check_link\<close> raises when its GET is the \<open>n\<close>-th of
  the run, if it raises one: that of the GET, or that of the parser on the response.
\<close>

definition failure :: "env \<Rightarrow> nat \<Rightarrow> string \<Rightarrow> exn option" where
  "failure en n link =
     (case fst (http_get en n link) of
        Inl e \<Rightarrow> Some e
      | Inr resp \<Rightarrow> (case html_parser en (resp_text resp) of Inl e \<Rightarrow> Some e | Inr pg \<Rightarrow> None))"

section \<open>Example environments\<close>

text \<open>
  Three environments for concrete runs. In \<open>example_env\<close> every GET takes one second and
  returns a page with the title \<open>ExampleChannel\<close>. In \<open>timeout_env\<close> the second GET of the
  run times out after ten seconds. In \<open>padded_env\<close> the title element's text is \<open>A\<close> with a
  space on each side and there is no member information.
\<close>

definition example_env :: env where
  "example_env =
     \<lparr>http_get = (\<lambda>n link. (Inr \<lparr>resp_url = link, resp_text = ''page''\<rparr>, 1)),
      html_parser = (\<lambda>txt. Inr \<lparr>page_title = Some ''ExampleChannel'',
                                  page_extra = Some ''12 subscribers''\<rparr>),
      stop_before_read = None\<rparr>"

definition timeout_env :: env where
  "timeout_env =
     example_env\<lparr>http_get := (\<lambda>n link. if n = 1 then (Inl (Raised ''timed out''), 10)
                                         else http_get example_env n link)\<rparr>"

definition padded_env :: env where
  "padded_env =
     example_env\<lparr>html_parser := (\<lambda>txt. Inr \<lparr>page_title = Some '' A '', page_extra = None\<rparr>)\<rparr>"

text \<open>The definitions that a concrete run unfolds.\<close>

lemmas evaluation =
  run_def LinkChecker_init_def world_init_def read_is_running_def check_link_def get_def
  result_of_def page_result_def error_result_def RateLimiter_init_def acquire.simps
  normalize_link_def startswith_def emit_def ThreadPoolExecutor_init_def shutdown_def
  strip_def strip_left.simps whitespace_def stop_def sleep_def

section \<open>Properties of the link normalization\<close>

lemma startswith_prefix: "startswith s p = prefix p s"
  by (auto simp: startswith_def prefix_def) (metis append_eq_conv_conj)

text \<open>
  Claim C9. For every input string the normalization applies these rules in this order: an
  input that starts with \<open>@\<close> loses the \<open>@\<close> and gets \<open>https://t.me/\<close> in front; otherwise
  an input that does not start with \<open>http\<close> gets \<open>https://t.me/\<close> in front; otherwise the
  input is returned as it is. The normalization is a total function on strings and raises
  nothing.
\<close>

theorem normalize_rules:
  "normalize_link s =
     (if prefix ''@'' s then ''https://t.me/'' @ tl s
      else if \<not> prefix ''http'' s then ''https://t.me/'' @ s
      else s)"
  by (simp add: normalize_link_def startswith_prefix drop_Suc)

theorem normalize_rules_witness:
  "normalize_link ''@durov'' = ''https://t.me/durov'' \<and>
   normalize_link ''durov'' = ''https://t.me/durov'' \<and>
   normalize_link ''https://t.me/durov'' = ''https://t.me/durov''"
  using normalize_rules [of "''@durov''"] normalize_rules [of "''durov''"]
    normalize_rules [of "''https://t.me/durov''"]
  by simp

text \<open>
  Claim C10. The normalization is idempotent: normalizing the output of the normalization
  gives that output again, for every input string.
\<close>

theorem normalize_idempotent: "normalize_link (normalize_link s) = normalize_link s"
  by (simp add: normalize_link_def startswith_def)

theorem normalize_idempotent_witness:
  "normalize_link (normalize_link ''@durov'') = normalize_link ''@durov'' \<and>
   normalize_link ''@durov'' = ''https://t.me/durov''"
  using normalize_idempotent [of "''@durov''"]
  by (simp add: normalize_link_def startswith_def)

section \<open>Properties of the rate limiter\<close>

text \<open>
  The purge loop leaves a list that is empty or starts with a timestamp later than the bound;
  what it removes is a front part of the list, all of it at or before the bound; and purging
  twice with growing bounds is purging with the later bound.
\<close>

lemma purge_head: "purge b rs = r # rs' \<Longrightarrow> b < r"
  by (induction rs) (auto split: if_splits)


lemma purge_purge: "b1 \<le> b2 \<Longrightarrow> purge b2 (purge b1 rs) = purge b2 rs"
  by (induction rs) auto

lemma acquire_admits:
  assumes "1 \<le> max_requests rl"
  shows "\<exists>t. now \<le> t \<and>
    acquire rl now =
      (Inr True, rl\<lparr>requests := purge (t - time_window rl) (requests rl) @ [t]\<rparr>, t) \<and>
    int (length (purge (t - time_window rl) (requests rl))) < max_requests rl"
  using assms
proof (induction rl now rule: acquire.induct)
  case (1 rl now)
  define rl1 where "rl1 = rl\<lparr>requests := purge (now - time_window rl) (requests rl)\<rparr>"
  show ?case
  proof (cases "max_requests rl \<le> int (length (requests rl1))")
    case False
    then have "acquire rl now = (Inr True, rl1\<lparr>requests := requests rl1 @ [now]\<rparr>, now)"
      by (simp add: acquire.simps [of rl now] rl1_def)
    with False show ?thesis
      by (intro exI [of _ now]) (simp add: rl1_def)
  next
    case True
    with "1.prems" obtain r0 rest where r0: "requests rl1 = r0 # rest"
      by (cases "requests rl1") auto
    then have p: "purge (now - time_window rl) (requests rl) = r0 # rest"
      by (simp add: rl1_def)
    then have late: "now - time_window rl < r0"
      by (rule purge_head)
    define d where "d = r0 + time_window rl1 - now"
    have d: "0 < d"
      using late by (simp add: d_def rl1_def)
    have full: "max_requests rl \<le> int (length (r0 # rest))"
      using True r0 by simp
    have "acquire rl now = acquire (rl\<lparr>requests := r0 # rest\<rparr>) (sleep (r0 + time_window rl - now) now)"
      using full late by (simp add: acquire.simps [of rl now] p)
    then have step: "acquire rl now = acquire rl1 (sleep d now)"
      by (simp add: rl1_def p d_def)
    have "1 \<le> max_requests rl1"
      using "1.prems" by (simp add: rl1_def)
    from "1.IH" [OF refl rl1_def _ r0 d_def d this] True
    obtain t where t: "sleep d now \<le> t"
      "acquire rl1 (sleep d now) =
        (Inr True, rl1\<lparr>requests := purge (t - time_window rl1) (requests rl1) @ [t]\<rparr>, t)"
      "int (length (purge (t - time_window rl1) (requests rl1))) < max_requests rl1"
      by (auto simp: rl1_def)
    have le: "now \<le> t"
      using t(1) d by (simp add: sleep_def)
    then have "purge (t - time_window rl) (requests rl1) = purge (t - time_window rl) (requests rl)"
      by (simp add: rl1_def purge_purge)
    with t(2,3) step le show ?thesis
      by (intro exI [of _ t]) (simp add: rl1_def)
  qed
qed










section \<open>Properties of a single check\<close>

lemma read_is_running_other:
  "stop_before_read en \<noteq> Some (reads w) \<Longrightarrow>
   read_is_running en c w = (is_running c, c, w\<lparr>reads := Suc (reads w)\<rparr>)"
  by (simp add: read_is_running_def)



lemma r_link_result_of: "r_link (result_of en link got t) = link"
  by (simp add: result_of_def error_result_def page_result_def split: sum.splits)

lemma check_link_running:
  assumes "is_running c" and "stop_before_read en \<noteq> Some (reads w)"
    and "1 \<le> max_requests (rate_limiter c)"
  shows "\<exists>rl t. acquire (rate_limiter c) (clock w) = (Inr True, rl, t) \<and>
    max_requests rl = max_requests (rate_limiter c) \<and>
    check_link en c w link =
      (Inr (Some (result_of en (normalize_link link)
                   (fst (http_get en (fetches w) (normalize_link link)))
                   (t + snd (http_get en (fetches w) (normalize_link link))))),
       c\<lparr>rate_limiter := rl\<rparr>,
       w\<lparr>reads := Suc (reads w),
         clock := t + snd (http_get en (fetches w) (normalize_link link)),
         fetches := Suc (fetches w),
         trace := trace w @ [Get_begin (normalize_link link), Get_end (normalize_link link)]\<rparr>)"
proof -
  from acquire_admits [OF assms(3), of "clock w"] obtain t where
    t: "acquire (rate_limiter c) (clock w) =
      (Inr True, rate_limiter c\<lparr>requests :=
         purge (t - time_window (rate_limiter c)) (requests (rate_limiter c)) @ [t]\<rparr>, t)"
    by blast
  show ?thesis
    using assms(1) t
    by (simp add: check_link_def read_is_running_other [OF assms(2)] get_def split: prod.splits)
qed

text \<open>
  Claim C4, as amended. For every fetched page (the GET returned a response and the parser
  returned the two lookups), the record has the status \<open>VALID\<close> if and only if the title
  element was found and \<open>INVALID\<close> otherwise; its name is the title element's text with the
  whitespace at both ends stripped when the title element is there, and the placeholder
  \<open>UNKNOWN\<close> otherwise.
\<close>

theorem fetched_page_result:
  assumes "is_running c" and "stop_before_read en \<noteq> Some (reads w)"
    and "1 \<le> max_requests (rate_limiter c)"
    and "fst (http_get en (fetches w) (normalize_link link)) = Inr resp"
    and "html_parser en (resp_text resp) = Inr pg"
  shows "\<exists>res c' w'. check_link en c w link = (Inr (Some res), c', w') \<and>
    (r_status res = VALID \<longleftrightarrow> page_title pg \<noteq> None) \<and>
    (r_status res = INVALID \<longleftrightarrow> page_title pg = None) \<and>
    r_name res = (case page_title pg of Some title \<Rightarrow> strip title | None \<Rightarrow> UNKNOWN)"
proof -
  from check_link_running [OF assms(1,2,3), of link] obtain t c' w' where
    "check_link en c w link =
      (Inr (Some (result_of en (normalize_link link)
                   (fst (http_get en (fetches w) (normalize_link link))) t)), c', w')"
    by blast
  moreover have "VALID \<noteq> INVALID" by (simp add: VALID_def INVALID_def)
  ultimately show ?thesis
    using assms(4,5)
    by (auto simp: result_of_def page_result_def split: option.splits)
qed

theorem fetched_page_result_witness:
  "fst (check_link padded_env (LinkChecker_init [''a'']) (world_init 0) ''a'') =
     Inr (Some \<lparr>r_link = ''https://t.me/a'', r_name = ''A'', r_members = UNKNOWN,
                r_status = VALID, r_checked = 1, r_redirect = []\<rparr>) \<and>
   (\<exists>res c' w'. check_link padded_env (LinkChecker_init [''a'']) (world_init 0) ''a'' =
        (Inr (Some res), c', w') \<and> r_status res = VALID \<and> r_name res = strip '' A '')"
proof -
  have "is_running (LinkChecker_init [''a''])"
    "stop_before_read padded_env \<noteq> Some (reads (world_init 0))"
    "1 \<le> max_requests (rate_limiter (LinkChecker_init [''a'']))"
    "fst (http_get padded_env (fetches (world_init 0)) (normalize_link ''a'')) =
       Inr \<lparr>resp_url = ''https://t.me/a'', resp_text = ''page''\<rparr>"
    "html_parser padded_env (resp_text \<lparr>resp_url = ''https://t.me/a'', resp_text = ''page''\<rparr>) =
       Inr \<lparr>page_title = Some '' A '', page_extra = None\<rparr>"
    by (simp_all add: evaluation example_env_def padded_env_def)
  from fetched_page_result [OF this]
  have "\<exists>res c' w'. check_link padded_env (LinkChecker_init [''a'']) (world_init 0) ''a'' =
        (Inr (Some res), c', w') \<and> r_status res = VALID \<and> r_name res = strip '' A ''"
    by auto
  moreover have "fst (check_link padded_env (LinkChecker_init [''a'']) (world_init 0) ''a'') =
     Inr (Some \<lparr>r_link = ''https://t.me/a'', r_name = ''A'', r_members = UNKNOWN,
                r_status = VALID, r_checked = 1, r_redirect = []\<rparr>)"
    by (simp add: evaluation example_env_def padded_env_def)
  ultimately show ?thesis by simp
qed

text \<open>
  The claim C4 as the specification states it (the name equals the title element's text)
  fails on a title element whose text has a space on each side: the name is stripped.
\<close>

theorem display_name_counterexample:
  "html_parser padded_env ''page'' = Inr \<lparr>page_title = Some '' A '', page_extra = None\<rparr> \<and>
   fst (check_link padded_env (LinkChecker_init [''a'']) (world_init 0) ''a'') =
     Inr (Some \<lparr>r_link = ''https://t.me/a'', r_name = ''A'', r_members = UNKNOWN,
                r_status = VALID, r_checked = 1, r_redirect = []\<rparr>) \<and>
   ''A'' \<noteq> '' A ''"
  by (simp add: evaluation example_env_def padded_env_def)

section \<open>Properties of the loop\<close>

lemma check_link_frame:
  assumes "check_link en c w link = (out, c', w')"
  shows "pool w' = pool w \<and>
    (case out of
       Inr (Some r) \<Rightarrow> trace w' = trace w @ [Get_begin (r_link r), Get_end (r_link r)]
     | _ \<Rightarrow> trace w' = trace w)"
proof -
  obtain o1 rl t where a: "acquire (rate_limiter (fst (snd (read_is_running en c w))))
      (clock (snd (snd (read_is_running en c w)))) = (o1, rl, t)"
    by (metis prod_cases3)
  show ?thesis
    using assms a
    by (cases o1)
      (auto simp: check_link_def read_is_running_def get_def r_link_result_of Let_def
        split: prod.splits if_splits)
qed

lemma checks_append: "checks (prs @ qrs) = checks prs @ checks qrs"
  by (induction prs rule: checks.induct) auto

lemma run_loop_frame:
  "\<exists>prs. trace (snd (snd (run_loop en ls c w))) = trace w @ checks prs \<and>
     pool (snd (snd (run_loop en ls c w))) = pool w"
proof (induction ls arbitrary: c w)
  case Nil
  show ?case by (intro exI [of _ "[]"]) simp
next
  case (Cons link rest)
  obtain running c1 w1 where r: "read_is_running en c w = (running, c1, w1)"
    by (metis prod_cases3)
  then have w1: "trace w1 = trace w" "pool w1 = pool w"
    by (auto simp: read_is_running_def Let_def)
  show ?case
  proof (cases running)
    case False
    with r w1 show ?thesis by (intro exI [of _ "[]"]) simp
  next
    case True
    obtain out c2 w2 where k: "check_link en c1 w1 (strip link) = (out, c2, w2)"
      by (metis prod_cases3)
    note f = check_link_frame [OF k]
    show ?thesis
    proof (cases out)
      case (Inl e)
      with r True k f w1 show ?thesis by (intro exI [of _ "[]"]) simp
    next
      case (Inr res)
      show ?thesis
      proof (cases res)
        case None
        from Cons.IH [of c2 w2] obtain prs where
          "trace (snd (snd (run_loop en rest c2 w2))) = trace w2 @ checks prs"
          "pool (snd (snd (run_loop en rest c2 w2))) = pool w2"
          by blast
        with r True k f w1 Inr None show ?thesis
          by (intro exI [of _ prs]) simp
      next
        case (Some x)
        define w3 where "w3 = emit (Progress_signal link x) w2"
        from Cons.IH [of c2 w3] obtain prs where
          "trace (snd (snd (run_loop en rest c2 w3))) = trace w3 @ checks prs"
          "pool (snd (snd (run_loop en rest c2 w3))) = pool w3"
          by blast
        with r True k f w1 Inr Some show ?thesis
          by (intro exI [of _ "(link, x) # prs"]) (simp add: w3_def emit_def)
      qed
    qed
  qed
qed

lemma run_loop_nostop:
  assumes "stop_before_read en = None" and "is_running c"
    and "1 \<le> max_requests (rate_limiter c)"
  shows "\<exists>c' w' prs. run_loop en ls c w = (Inr (), c', w') \<and> is_running c' \<and>
    trace w' = trace w @ checks prs \<and> map fst prs = ls \<and>
    fetches w' = fetches w + length ls \<and>
    (\<forall>j<length ls. \<exists>t. snd (prs ! j) =
       result_of en (normalize_link (strip (ls ! j)))
         (fst (http_get en (fetches w + j) (normalize_link (strip (ls ! j))))) t)"
  using assms(2,3)
proof (induction ls arbitrary: c w)
  case Nil
  then show ?case by (intro exI [of _ c] exI [of _ w] exI [of _ "[]"]) simp
next
  case (Cons link rest)
  define w1 where "w1 = w\<lparr>reads := Suc (reads w)\<rparr>"
  have r: "read_is_running en c w = (True, c, w1)"
    using Cons.prems(1) assms(1) by (simp add: read_is_running_def w1_def)
  have "stop_before_read en \<noteq> Some (reads w1)"
    using assms(1) by simp
  from check_link_running [OF Cons.prems(1) this Cons.prems(2), of "strip link"]
  obtain rl t x w2 where k: "check_link en c w1 (strip link) = (Inr (Some x), c\<lparr>rate_limiter := rl\<rparr>, w2)"
    and rl: "max_requests rl = max_requests (rate_limiter c)"
    and x: "x = result_of en (normalize_link (strip link))
         (fst (http_get en (fetches w1) (normalize_link (strip link))))
         (t + snd (http_get en (fetches w1) (normalize_link (strip link))))"
    and w2: "trace w2 = trace w1 @ [Get_begin (normalize_link (strip link)), Get_end (normalize_link (strip link))]"
      "fetches w2 = Suc (fetches w1)"
    by auto
  define c2 where "c2 = c\<lparr>rate_limiter := rl\<rparr>"
  define w3 where "w3 = emit (Progress_signal link x) w2"
  have "is_running c2" "1 \<le> max_requests (rate_limiter c2)"
    using Cons.prems rl by (simp_all add: c2_def)
  from Cons.IH [OF this, of w3] obtain c' w' prs where
    rest: "run_loop en rest c2 w3 = (Inr (), c', w')" "is_running c'"
      "trace w' = trace w3 @ checks prs" "map fst prs = rest"
      "fetches w' = fetches w3 + length rest"
      "\<forall>j<length rest. \<exists>t. snd (prs ! j) =
         result_of en (normalize_link (strip (rest ! j)))
           (fst (http_get en (fetches w3 + j) (normalize_link (strip (rest ! j))))) t"
    by blast
  have step: "run_loop en (link # rest) c w = (Inr (), c', w')"
    using r k rest(1) by (simp add: c2_def w3_def)
  have xl: "r_link x = normalize_link (strip link)"
    by (simp add: x r_link_result_of)
  have tr: "trace w' = trace w @ checks ((link, x) # prs)"
    using rest(3) w2(1) xl by (simp add: w3_def emit_def w1_def)
  have fe: "fetches w' = fetches w + length (link # rest)"
    using rest(5) w2(2) by (simp add: w3_def emit_def w1_def)
  have each: "\<forall>j<length (link # rest). \<exists>t. snd (((link, x) # prs) ! j) =
       result_of en (normalize_link (strip ((link # rest) ! j)))
         (fst (http_get en (fetches w + j) (normalize_link (strip ((link # rest) ! j))))) t"
  proof (intro allI impI)
    fix j assume j: "j < length (link # rest)"
    show "\<exists>t. snd (((link, x) # prs) ! j) =
       result_of en (normalize_link (strip ((link # rest) ! j)))
         (fst (http_get en (fetches w + j) (normalize_link (strip ((link # rest) ! j))))) t"
    proof (cases j)
      case 0
      then show ?thesis using x by (auto simp: w1_def)
    next
      case (Suc i)
      with j have "i < length rest" by simp
      with rest(6) obtain t' where "snd (prs ! i) =
         result_of en (normalize_link (strip (rest ! i)))
           (fst (http_get en (fetches w3 + i) (normalize_link (strip (rest ! i))))) t'"
        by blast
      moreover have "fetches w3 + i = fetches w + j"
        using w2(2) Suc by (simp add: w3_def emit_def w1_def)
      ultimately show ?thesis using Suc by auto
    qed
  qed
  from step rest(2) tr rest(4) fe each show ?case
    by (intro exI [of _ c'] exI [of _ w'] exI [of _ "(link, x) # prs"]) simp
qed








lemma visit_done: "p \<noteq> Looping \<Longrightarrow> foldl (visit en) (p, c, w) ls = (p, c, w)"
  by (induction ls) (cases p; simp)+

lemma foldl_visit:
  "(case foldl (visit en) (Looping, c, w) ls of (p, c', w') \<Rightarrow> (raised p, c', w')) =
   run_loop en ls c w"
proof (induction ls arbitrary: c w)
  case Nil
  show ?case by simp
next
  case (Cons link rest)
  obtain running c1 w1 where r: "read_is_running en c w = (running, c1, w1)"
    by (metis prod_cases3)
  show ?case
  proof (cases running)
    case False
    with r show ?thesis by (simp add: visit_done)
  next
    case True
    obtain out c2 w2 where k: "check_link en c1 w1 (strip link) = (out, c2, w2)"
      by (metis prod_cases3)
    show ?thesis
    proof (cases out)
      case (Inl e)
      with r True k show ?thesis by (simp add: visit_done)
    next
      case (Inr res)
      with r True k Cons.IH show ?thesis by (cases res) simp_all
    qed
  qed
qed

lemma sequential_checks:
  "sequential (checks prs @ [Finished_signal])" "sequential (checks prs @ [Error_signal m])"
  by (induction prs rule: checks.induct) simp_all

lemma peak_checks:
  "peak_in_flight 0 (checks prs @ [Finished_signal]) \<le> 1"
  "peak_in_flight 0 (checks prs @ [Error_signal m]) \<le> 1"
  by (induction prs rule: checks.induct) simp_all

lemma progress_checks:
  "progress (checks prs @ [Finished_signal]) = prs"
  by (induction prs rule: checks.induct) simp_all

lemma update_fresh: "k \<notin> fst ` set al \<Longrightarrow> AList.update k v al = al @ [(k, v)]"
  by (induction al) auto

lemma deliver_checks:
  "distinct (map fst (acc @ prs)) \<Longrightarrow>
   deliver acc (checks prs @ [Finished_signal]) = acc @ prs"
proof (induction prs arbitrary: acc rule: checks.induct)
  case 1
  show ?case by simp
next
  case (2 link res prs)
  from "2.prems" have "link \<notin> fst ` set acc" by auto
  then have "update_check_result acc link res = acc @ [(link, res)]"
    by (simp add: update_check_result_def update_fresh)
  moreover from "2.prems" have "distinct (map fst ((acc @ [(link, res)]) @ prs))" by simp
  then have "deliver (acc @ [(link, res)]) (checks prs @ [Finished_signal]) =
      (acc @ [(link, res)]) @ prs"
    by (rule "2.IH")
  ultimately show ?case by simp
qed

lemma terminal_result_of: "terminal (r_status (result_of en link got t))"
  by (simp add: terminal_def result_of_def error_result_def page_result_def split: sum.splits)

lemma run_frame:
  "\<exists>prs fin. trace (snd (run en c w)) = trace w @ checks prs @ [fin] \<and>
     (fin = Finished_signal \<or> (\<exists>m. fin = Error_signal m)) \<and>
     pool (snd (run en c w)) = Some (shutdown (ThreadPoolExecutor_init 5))"
proof -
  define w0 where "w0 = w\<lparr>pool := Some (ThreadPoolExecutor_init 5)\<rparr>"
  obtain out c1 w1 where l: "run_loop en (links c) c w0 = (out, c1, w1)"
    by (metis prod_cases3)
  from run_loop_frame [of en "links c" c w0] l obtain prs where
    "trace w1 = trace w0 @ checks prs" "pool w1 = pool w0"
    by auto
  with l show ?thesis
    by (cases out) (auto simp: run_def w0_def [symmetric] emit_def, auto simp: w0_def)
qed

lemma check_link_pool:
  "check_link en c (w\<lparr>pool := p\<rparr>) link =
   (case check_link en c w link of (out, c', w') \<Rightarrow> (out, c', w'\<lparr>pool := p\<rparr>))"
  by (simp add: check_link_def read_is_running_def get_def Let_def split: prod.splits sum.splits)

lemma run_loop_pool:
  "run_loop en ls c (w\<lparr>pool := p\<rparr>) =
   (case run_loop en ls c w of (out, c', w') \<Rightarrow> (out, c', w'\<lparr>pool := p\<rparr>))"
proof (induction ls arbitrary: c w)
  case Nil
  show ?case by simp
next
  case (Cons link rest)
  obtain running c1 w1 where r: "read_is_running en c w = (running, c1, w1)"
    by (metis prod_cases3)
  then have rp: "read_is_running en c (w\<lparr>pool := p\<rparr>) = (running, c1, w1\<lparr>pool := p\<rparr>)"
    by (auto simp: read_is_running_def Let_def)
  obtain out c2 w2 where k: "check_link en c1 w1 (strip link) = (out, c2, w2)"
    by (metis prod_cases3)
  then have kp: "check_link en c1 (w1\<lparr>pool := p\<rparr>) (strip link) = (out, c2, w2\<lparr>pool := p\<rparr>)"
    by (simp add: check_link_pool)
  have e: "emit x (w2\<lparr>pool := p\<rparr>) = (emit x w2)\<lparr>pool := p\<rparr>" for x
    by (simp add: emit_def)
  show ?case
    using r rp k kp Cons.IH by (cases out) (simp_all add: e)
qed

lemma result_of_failure:
  "failure en n link = Some e \<Longrightarrow>
   result_of en link (fst (http_get en n link)) t = error_result link e t"
  by (auto simp: failure_def result_of_def split: sum.splits)

lemma run_nostop:
  assumes "stop_before_read en = None"
  shows "\<exists>c' w' prs. run en (LinkChecker_init ls) (world_init t0) = (c', w') \<and>
    is_running c' \<and> trace w' = checks prs @ [Finished_signal] \<and> map fst prs = ls \<and>
    fetches w' = length ls \<and>
    (\<forall>j<length ls. \<exists>t. snd (prs ! j) =
       result_of en (normalize_link (strip (ls ! j)))
         (fst (http_get en j (normalize_link (strip (ls ! j))))) t)"
proof -
  define c where "c = LinkChecker_init ls"
  define w where "w = (world_init t0)\<lparr>pool := Some (ThreadPoolExecutor_init 5)\<rparr>"
  have "is_running c" "1 \<le> max_requests (rate_limiter c)"
    by (simp_all add: c_def LinkChecker_init_def RateLimiter_init_def)
  from run_loop_nostop [OF assms this, of ls w] obtain c' w' prs where
    l: "run_loop en ls c w = (Inr (), c', w')" "is_running c'"
      "trace w' = trace w @ checks prs" "map fst prs = ls"
      "fetches w' = fetches w + length ls"
      "\<forall>j<length ls. \<exists>t. snd (prs ! j) =
       result_of en (normalize_link (strip (ls ! j)))
         (fst (http_get en (fetches w + j) (normalize_link (strip (ls ! j))))) t"
    by blast
  have "links c = ls" by (simp add: c_def LinkChecker_init_def)
  with l(1) have "run en c (world_init t0) =
      (c', emit Finished_signal (w'\<lparr>pool := map_option shutdown (pool w')\<rparr>))"
    by (simp add: run_def w_def)
  moreover have "trace w = []" "fetches w = 0"
    by (simp_all add: w_def world_init_def)
  ultimately show ?thesis
    using l(2-6) unfolding c_def
    by (intro exI [of _ c']
        exI [of _ "emit Finished_signal (w'\<lparr>pool := map_option shutdown (pool w')\<rparr>)"]
        exI [of _ prs])
      (simp add: emit_def)
qed

section \<open>Properties of a run\<close>

text \<open>
  Claim C1 says that the run hands the links to a pool of five workers that fetch in
  parallel. The source creates the pool and gives it no task. On two links the run fetches
  the first link, emits its result, and only then starts on the second; the pool is shut
  down with nothing submitted to it.
\<close>

theorem run_of_two_links:
  "run example_env (LinkChecker_init [''a'', ''@b'']) (world_init 0) =
     (\<lparr>links = [''a'', ''@b''], is_running = True,
        rate_limiter = \<lparr>max_requests = 20, time_window = 60, requests = [0, 1]\<rparr>\<rparr>,
      \<lparr>clock = 2, reads = 4, fetches = 2,
        trace =
          [Get_begin ''https://t.me/a'', Get_end ''https://t.me/a'',
           Progress_signal ''a''
             \<lparr>r_link = ''https://t.me/a'', r_name = ''ExampleChannel'',
                r_members = ''12 subscribers'', r_status = VALID, r_checked = 1,
                r_redirect = []\<rparr>,
           Get_begin ''https://t.me/b'', Get_end ''https://t.me/b'',
           Progress_signal ''@b''
             \<lparr>r_link = ''https://t.me/b'', r_name = ''ExampleChannel'',
                r_members = ''12 subscribers'', r_status = VALID, r_checked = 2,
                r_redirect = []\<rparr>,
           Finished_signal],
        pool = Some \<lparr>max_workers = 5, submitted = [], is_shutdown = True\<rparr>\<rparr>)"
  by (simp add: evaluation example_env_def)

text \<open>
  Claim C2. The run is equal to the plain sequential loop: it returns the same checker and
  leaves the same world but for the thread pool, which the run creates with five workers and
  shuts down without ever having given it a task; its trace is a row of complete checks, each
  link's result emitted before the next link's GET starts; and at most one GET is in flight
  at any moment.
\<close>

theorem run_is_sequential_loop:
  "fst (run en c (world_init t0)) = fst (sequential_run en c (world_init t0)) \<and>
   snd (run en c (world_init t0)) =
     (snd (sequential_run en c (world_init t0)))
       \<lparr>pool := Some \<lparr>max_workers = 5, submitted = [], is_shutdown = True\<rparr>\<rparr> \<and>
   sequential (trace (snd (run en c (world_init t0)))) \<and>
   peak_in_flight 0 (trace (snd (run en c (world_init t0)))) \<le> 1"
proof -
  define wi where "wi = world_init t0"
  obtain out c1 w1 where l: "run_loop en (links c) c wi = (out, c1, w1)"
    by (metis prod_cases3)
  obtain p c1' w1' where f: "foldl (visit en) (Looping, c, wi) (links c) = (p, c1', w1')"
    by (metis prod_cases3)
  from foldl_visit [of en c wi "links c"] l f
  have same: "raised p = out" "c1' = c1" "w1' = w1"
    by simp_all
  have looped: "run_loop en (links c) c (wi\<lparr>pool := Some (ThreadPoolExecutor_init 5)\<rparr>) =
      (out, c1, w1\<lparr>pool := Some (ThreadPoolExecutor_init 5)\<rparr>)"
    by (simp add: run_loop_pool l)
  have eq: "run en c wi =
      (fst (sequential_run en c wi),
       (snd (sequential_run en c wi))
         \<lparr>pool := Some \<lparr>max_workers = 5, submitted = [], is_shutdown = True\<rparr>\<rparr>)"
    using looped f same
    by (cases p)
      (auto simp: run_def sequential_run_def emit_def shutdown_def ThreadPoolExecutor_init_def)
  from run_frame [of en c wi] obtain prs fin where
    t: "trace (snd (run en c wi)) = trace wi @ checks prs @ [fin]"
      "fin = Finished_signal \<or> (\<exists>m. fin = Error_signal m)"
    by blast
  have "trace wi = []" by (simp add: wi_def world_init_def)
  with t have "sequential (trace (snd (run en c wi)))"
    "peak_in_flight 0 (trace (snd (run en c wi))) \<le> 1"
    using sequential_checks [of prs] peak_checks [of prs] by auto
  with eq show ?thesis unfolding wi_def by simp
qed

theorem run_is_sequential_loop_witness:
  "snd (run timeout_env (LinkChecker_init [''a'', ''@b'']) (world_init 0)) =
     (snd (sequential_run timeout_env (LinkChecker_init [''a'', ''@b'']) (world_init 0)))
       \<lparr>pool := Some \<lparr>max_workers = 5, submitted = [], is_shutdown = True\<rparr>\<rparr> \<and>
   sequential (trace (snd (run timeout_env (LinkChecker_init [''a'', ''@b'']) (world_init 0)))) \<and>
   peak_in_flight 0 (trace (snd (run timeout_env (LinkChecker_init [''a'', ''@b'']) (world_init 0)))) = 1"
proof -
  have "peak_in_flight 0 (trace (snd (run timeout_env (LinkChecker_init [''a'', ''@b'']) (world_init 0)))) = 1"
    by (simp add: evaluation example_env_def timeout_env_def)
  with run_is_sequential_loop [of timeout_env "LinkChecker_init [''a'', ''@b'']" 0]
  show ?thesis by blast
qed

text \<open>
  Claim C3. When nobody stops the run and the GET or the parse of the \<open>i\<close>-th link raises an
  exception \<open>e\<close>, the run emits a progress signal for every link, in order; the result of
  the \<open>i\<close>-th link has the status \<open>ERROR_PREFIX\<close> followed by \<^verbatim>\<open>str(e)\<close>; and the run ends
  with \<^verbatim>\<open>finished_signal\<close>, so no exception left \<^verbatim>\<open>check_link\<close>.
\<close>

theorem failed_check_reported:
  assumes "stop_before_read en = None" and "i < length ls"
    and "failure en i (normalize_link (strip (ls ! i))) = Some e"
  shows "case run en (LinkChecker_init ls) (world_init t0) of
           (c', w') \<Rightarrow>
             map fst (progress (trace w')) = ls \<and>
             r_status (snd (progress (trace w') ! i)) = ERROR_PREFIX @ str e \<and>
             last (trace w') = Finished_signal"
proof -
  from run_nostop [OF assms(1), of ls t0] obtain c' w' prs where
    r: "run en (LinkChecker_init ls) (world_init t0) = (c', w')"
      "trace w' = checks prs @ [Finished_signal]" "map fst prs = ls"
      "\<forall>j<length ls. \<exists>t. snd (prs ! j) =
       result_of en (normalize_link (strip (ls ! j)))
         (fst (http_get en j (normalize_link (strip (ls ! j))))) t"
    by blast
  from r(4) assms(2) obtain t where "snd (prs ! i) =
       result_of en (normalize_link (strip (ls ! i)))
         (fst (http_get en i (normalize_link (strip (ls ! i))))) t"
    by blast
  with assms(3) have "r_status (snd (prs ! i)) = ERROR_PREFIX @ str e"
    by (simp add: result_of_failure error_result_def)
  with r(1,2,3) show ?thesis
    by (simp add: progress_checks)
qed

theorem failed_check_reported_witness:
  "map fst (progress (trace (snd (run timeout_env
       (LinkChecker_init [''a'', ''@b'', ''http://c'']) (world_init 0))))) =
     [''a'', ''@b'', ''http://c''] \<and>
   r_status (snd (progress (trace (snd (run timeout_env
       (LinkChecker_init [''a'', ''@b'', ''http://c'']) (world_init 0)))) ! 1)) =
     ERROR_PREFIX @ ''timed out'' \<and>
   last (trace (snd (run timeout_env
       (LinkChecker_init [''a'', ''@b'', ''http://c'']) (world_init 0)))) = Finished_signal"
proof -
  have "stop_before_read timeout_env = None"
    "1 < length [''a'', ''@b'', ''http://c'']"
    "failure timeout_env 1 (normalize_link (strip ([''a'', ''@b'', ''http://c''] ! 1))) =
       Some (Raised ''timed out'')"
    by (simp_all add: failure_def example_env_def timeout_env_def)
  from failed_check_reported [OF this, of 0] show ?thesis
    by (simp add: case_prod_beta)
qed

text \<open>
  Claim C8. For distinct links, when nobody stops the run, the run completes and the
  aggregator then holds exactly one entry for each link, under the link as it was given, in
  the order of the links, each with a terminal status.
\<close>

theorem every_link_recorded:
  assumes "stop_before_read en = None" and "distinct ls"
  shows "case run en (LinkChecker_init ls) (world_init t0) of
           (c', w') \<Rightarrow>
             map fst (deliver [] (trace w')) = ls \<and>
             length (deliver [] (trace w')) = length ls \<and>
             (\<forall>(link, res) \<in> set (deliver [] (trace w')). terminal (r_status res)) \<and>
             ending_of c' w' = Some Completed"
proof -
  from run_nostop [OF assms(1), of ls t0] obtain c' w' prs where
    r: "run en (LinkChecker_init ls) (world_init t0) = (c', w')" "is_running c'"
      "trace w' = checks prs @ [Finished_signal]" "map fst prs = ls"
      "\<forall>j<length ls. \<exists>t. snd (prs ! j) =
       result_of en (normalize_link (strip (ls ! j)))
         (fst (http_get en j (normalize_link (strip (ls ! j))))) t"
    by blast
  have len: "length prs = length ls"
    using r(4) by (metis length_map)
  have "distinct (map fst ([] @ prs))"
    using r(4) assms(2) by simp
  then have d: "deliver [] (trace w') = prs"
    using deliver_checks [of "[]" prs] r(3) by simp
  have "\<forall>(link, res) \<in> set prs. terminal (r_status res)"
  proof (clarify)
    fix link res assume "(link, res) \<in> set prs"
    then obtain j where "j < length prs" "prs ! j = (link, res)"
      by (auto simp: in_set_conv_nth)
    with r(5) len obtain t where "res =
       result_of en (normalize_link (strip (ls ! j)))
         (fst (http_get en j (normalize_link (strip (ls ! j))))) t"
      by (metis snd_conv)
    then show "terminal (r_status res)"
      by (simp add: terminal_result_of)
  qed
  moreover have "ending_of c' w' = Some Completed"
    using r(2,3) by (simp add: ending_of_def)
  ultimately show ?thesis
    using r(1,4) d len by simp
qed

theorem every_link_recorded_witness:
  "deliver [] (trace (snd (run timeout_env
       (LinkChecker_init [''a'', ''@b'', ''http://c'']) (world_init 0)))) =
     [(''a'', \<lparr>r_link = ''https://t.me/a'', r_name = ''ExampleChannel'',
               r_members = ''12 subscribers'', r_status = VALID, r_checked = 1,
               r_redirect = []\<rparr>),
      (''@b'', error_result ''https://t.me/b'' (Raised ''timed out'') 11),
      (''http://c'', \<lparr>r_link = ''http://c'', r_name = ''ExampleChannel'',
               r_members = ''12 subscribers'', r_status = VALID, r_checked = 12,
               r_redirect = []\<rparr>)] \<and>
   length (deliver [] (trace (snd (run timeout_env
       (LinkChecker_init [''a'', ''@b'', ''http://c'']) (world_init 0))))) = 3 \<and>
   ending_of (fst (run timeout_env (LinkChecker_init [''a'', ''@b'', ''http://c'']) (world_init 0)))
     (snd (run timeout_env (LinkChecker_init [''a'', ''@b'', ''http://c'']) (world_init 0))) =
     Some Completed"
proof -
  have "stop_before_read timeout_env = None" "distinct [''a'', ''@b'', ''http://c'']"
    by (simp_all add: example_env_def timeout_env_def)
  from every_link_recorded [OF this, of 0]
  have "length (deliver [] (trace (snd (run timeout_env
       (LinkChecker_init [''a'', ''@b'', ''http://c'']) (world_init 0))))) = 3 \<and>
    ending_of (fst (run timeout_env (LinkChecker_init [''a'', ''@b'', ''http://c'']) (world_init 0)))
     (snd (run timeout_env (LinkChecker_init [''a'', ''@b'', ''http://c'']) (world_init 0))) =
     Some Completed"
    by (simp add: case_prod_beta)
  moreover have "deliver [] (trace (snd (run timeout_env
       (LinkChecker_init [''a'', ''@b'', ''http://c'']) (world_init 0)))) =
     [(''a'', \<lparr>r_link = ''https://t.me/a'', r_name = ''ExampleChannel'',
               r_members = ''12 subscribers'', r_status = VALID, r_checked = 1,
               r_redirect = []\<rparr>),
      (''@b'', error_result ''https://t.me/b'' (Raised ''timed out'') 11),
      (''http://c'', \<lparr>r_link = ''http://c'', r_name = ''ExampleChannel'',
               r_members = ''12 subscribers'', r_status = VALID, r_checked = 12,
               r_redirect = []\<rparr>)]"
    by (simp add: evaluation example_env_def timeout_env_def update_check_result_def)
  ultimately show ?thesis by simp
qed



end
